theory Spec2Isabelle
  imports Main
begin

section \<open>Rock-Paper-Scissors-Plus: the game core of game_state.py and referee_agent.py\<close>

subsection \<open>Python values\<close>

text \<open>
  The tools return dictionaries of JSON-like values. A dictionary is an association list
  in the order of the dict literal; \<open>dict_get\<close> is the lookup by key.
\<close>

datatype pyval =
    PNone
  | PBool bool
  | PInt int
  | PStr string
  | PList "pyval list"
  | PDict "(string \<times> pyval) list"

type_synonym pydict = "(string \<times> pyval) list"

definition dict_get :: "pydict \<Rightarrow> string \<Rightarrow> pyval option" where
  "dict_get d k = map_of d k"

text \<open>The exceptions that the modelled code could let escape.\<close>

datatype py_error = KeyError | IndexError | AttributeError

subsection \<open>Strings: \<open>str.lower\<close> and \<open>str.strip\<close>\<close>

text \<open>
  A Python \<open>str\<close> is a sequence of code points. A \<open>char\<close> here is the code point of
  the same number, so a \<open>string\<close> is a \<open>str\<close> over the code points 0 to 255; on these
  \<open>lower\<close> and \<open>strip\<close> below are what Python computes. Code points above 255 are
  outside the model.

  \<open>str.isspace\<close> holds on 9 to 13, 28 to 32, 133 and 160. \<open>str.lower\<close> moves
  A to Z (65 to 90) and the accented capitals 192 to 222, without the multiplication sign
  215, up by 32 and leaves every other code point below 256 as it is.
\<close>

definition isspace :: "char \<Rightarrow> bool" where
  "isspace c =
     (let n = (of_char c :: nat)
      in (9 \<le> n \<and> n \<le> 13) \<or> (28 \<le> n \<and> n \<le> 32) \<or> n = 133 \<or> n = 160)"

definition lower_char :: "char \<Rightarrow> char" where
  "lower_char c =
     (let n = (of_char c :: nat)
      in if (65 \<le> n \<and> n \<le> 90) \<or> (192 \<le> n \<and> n \<le> 222 \<and> n \<noteq> 215)
         then char_of (n + 32) else c)"

definition lower :: "string \<Rightarrow> string" where
  "lower s = map lower_char s"

text \<open>
  \<open>str.upper\<close> moves a to z (97 to 122) and the accented small letters 224 to 254,
  without the division sign 247, down by 32, and turns the sharp s (223) into \<open>SS\<close>. The
  upper-case forms of 181 and 255 are code points above 255; the model leaves these two as
  they are, so \<open>upper\<close> is Python's on every string that has neither.
\<close>

definition upper_char :: "char \<Rightarrow> string" where
  "upper_char c =
     (let n = (of_char c :: nat)
      in if (97 \<le> n \<and> n \<le> 122) \<or> (224 \<le> n \<and> n \<le> 254 \<and> n \<noteq> 247)
         then [char_of (n - 32)]
         else if n = 223 then ''SS'' else [c])"

definition upper :: "string \<Rightarrow> string" where
  "upper s = concat (map upper_char s)"

definition lstrip :: "string \<Rightarrow> string" where
  "lstrip s = dropWhile isspace s"

definition rstrip :: "string \<Rightarrow> string" where
  "rstrip s = rev (dropWhile isspace (rev s))"

definition strip :: "string \<Rightarrow> string" where
  "strip s = rstrip (lstrip s)"

subsection \<open>game_state.py: moves, results, state\<close>

datatype Move = ROCK | PAPER | SCISSORS | BOMB

datatype RoundResult = USER_WIN | BOT_WIN | DRAW | INVALID

text \<open>\<open>Move.value\<close> and \<open>RoundResult.value\<close>.\<close>

fun Move_value :: "Move \<Rightarrow> string" where
  "Move_value ROCK = ''rock''"
| "Move_value PAPER = ''paper''"
| "Move_value SCISSORS = ''scissors''"
| "Move_value BOMB = ''bomb''"

fun RoundResult_value :: "RoundResult \<Rightarrow> string" where
  "RoundResult_value USER_WIN = ''user_win''"
| "RoundResult_value BOT_WIN = ''bot_win''"
| "RoundResult_value DRAW = ''draw''"
| "RoundResult_value INVALID = ''invalid''"

text \<open>
  \<open>Move(s)\<close>, the lookup of an enum member by its value; \<open>None\<close> is the
  \<open>ValueError\<close> that \<open>validate_move\<close> catches.
\<close>

definition Move_of_value :: "string \<Rightarrow> Move option" where
  "Move_of_value s =
     (if s = ''rock'' then Some ROCK
      else if s = ''paper'' then Some PAPER
      else if s = ''scissors'' then Some SCISSORS
      else if s = ''bomb'' then Some BOMB
      else None)"

record GameState =
  round_number :: int
  user_score :: int
  bot_score :: int
  user_bomb_used :: bool
  bot_bomb_used :: bool
  game_over :: bool
  rounds_history :: "pydict list"

text \<open>\<open>GameState()\<close>: the defaults of the dataclass, the history set by \<open>__post_init__\<close>.\<close>

definition GameState_init :: GameState where
  "GameState_init =
     \<lparr>round_number = 0, user_score = 0, bot_score = 0, user_bomb_used = False,
      bot_bomb_used = False, game_over = False, rounds_history = []\<rparr>"

definition to_dict :: "GameState \<Rightarrow> pydict" where
  "to_dict s =
     [(''round_number'', PInt (round_number s)),
      (''user_score'', PInt (user_score s)),
      (''bot_score'', PInt (bot_score s)),
      (''user_bomb_used'', PBool (user_bomb_used s)),
      (''bot_bomb_used'', PBool (bot_bomb_used s)),
      (''game_over'', PBool (game_over s)),
      (''rounds_history'', PList (map PDict (rounds_history s)))]"

subsection \<open>GameLogic\<close>

text \<open>
  Lines 71 to 77 of \<open>validate_move\<close>: \<open>Move(move.lower().strip())\<close>, with \<open>None\<close>
  for the \<open>ValueError\<close> branch.
\<close>

definition parse_move :: "string \<Rightarrow> Move option" where
  "parse_move move = Move_of_value (strip (lower move))"

definition unknown_move_message :: "string \<Rightarrow> string" where
  "unknown_move_message move =
     ''Invalid move '' @ [CHR 0x27] @ move @ [CHR 0x27]
       @ ''. Valid moves: rock, paper, scissors, bomb''"

definition bomb_used_message :: string where
  "bomb_used_message = ''Bomb has already been used this game''"

text \<open>\<open>validate_move\<close> returns the triple \<open>(is_valid, move_enum, error_message)\<close>.\<close>

definition validate_move :: "string \<Rightarrow> bool \<Rightarrow> bool \<times> Move option \<times> string" where
  "validate_move move player_bomb_used =
     (case parse_move move of
        None \<Rightarrow> (False, None, unknown_move_message move)
      | Some parsed_move \<Rightarrow>
          if parsed_move = BOMB \<and> player_bomb_used
          then (False, None, bomb_used_message)
          else (True, Some parsed_move, ''''))"

text \<open>
  The table of \<open>resolve_round\<close> is a dict with the three keys ROCK, SCISSORS, PAPER;
  \<open>winning_moves[k]\<close> raises \<open>KeyError\<close> on any other key.
\<close>

definition winning_moves :: "(Move \<times> Move) list" where
  "winning_moves = [(ROCK, SCISSORS), (SCISSORS, PAPER), (PAPER, ROCK)]"

definition winning_moves_item :: "Move \<Rightarrow> py_error + Move" where
  "winning_moves_item k =
     (case map_of winning_moves k of None \<Rightarrow> Inl KeyError | Some v \<Rightarrow> Inr v)"

definition resolve_round :: "Move \<Rightarrow> Move \<Rightarrow> py_error + RoundResult" where
  "resolve_round user_move bot_move =
     (if user_move = BOMB \<and> bot_move = BOMB then Inr DRAW
      else if user_move = BOMB then Inr USER_WIN
      else if bot_move = BOMB then Inr BOT_WIN
      else if user_move = bot_move then Inr DRAW
      else case winning_moves_item user_move of
             Inl e \<Rightarrow> Inl e
           | Inr w \<Rightarrow> if w = bot_move then Inr USER_WIN else Inr BOT_WIN)"

definition determine_game_winner :: "GameState \<Rightarrow> string" where
  "determine_game_winner state =
     (if user_score state > bot_score state then ''user''
      else if bot_score state > user_score state then ''bot''
      else ''draw'')"

subsection \<open>referee_agent.py: the tools on the global game state\<close>

text \<open>
  The module keeps one global \<open>game_state\<close>; every tool reads and replaces it. A tool is
  a function from the state before the call to its return value and the state after.

  The two uses of \<open>random\<close> in \<open>play_round_tool\<close> are inputs of the model:
  \<open>bomb_roll\<close> is the truth value of \<open>random.random() < 0.15\<close> (read only when the
  bot's bomb is unused) and \<open>pick\<close> is the number behind \<open>random.choice\<close>, which
  returns the element at an index below the length of its argument.
\<close>

record draws =
  bomb_roll :: bool
  pick :: nat

definition choice :: "nat \<Rightarrow> 'a list \<Rightarrow> py_error + 'a" where
  "choice k seq = (if seq = [] then Inl IndexError else Inr (seq ! (k mod length seq)))"

definition available_moves :: "GameState \<Rightarrow> draws \<Rightarrow> Move list" where
  "available_moves s rnd =
     [ROCK, PAPER, SCISSORS]
       @ (if \<not> bot_bomb_used s then (if bomb_roll rnd then [BOMB] else []) else [])"

definition validate_move_tool :: "string \<Rightarrow> GameState \<Rightarrow> pydict \<times> GameState" where
  "validate_move_tool move s =
     (case validate_move move (user_bomb_used s) of
        (is_valid, parsed_move, error_msg) \<Rightarrow>
          ([(''is_valid'', PBool is_valid),
            (''parsed_move'',
               (case parsed_move of None \<Rightarrow> PNone | Some m \<Rightarrow> PStr (Move_value m))),
            (''error_message'', PStr error_msg),
            (''current_state'', PDict (to_dict s))], s))"

text \<open>
  The steps of \<open>play_round_tool\<close>, in the order of the source. An exception leaves the
  state as the assignments before it made it. \<open>validate_move\<close> returns a move whenever
  it returns \<open>is_valid\<close>, so the branch of a valid input without a move is never taken; it
  stands for the \<open>AttributeError\<close> of \<open>user_move_enum.value\<close> on \<open>None\<close>.
\<close>

definition wasted_round :: "GameState \<Rightarrow> GameState" where
  "wasted_round s =
     (let s1 = s\<lparr>round_number := round_number s + 1\<rparr>
      in if round_number s1 \<ge> 3 then s1\<lparr>game_over := True\<rparr> else s1)"

definition update_bombs :: "Move \<Rightarrow> Move \<Rightarrow> GameState \<Rightarrow> GameState" where
  "update_bombs user_move_enum bot_move_enum s =
     (let s1 = (if user_move_enum = BOMB then s\<lparr>user_bomb_used := True\<rparr> else s)
      in if bot_move_enum = BOMB then s1\<lparr>bot_bomb_used := True\<rparr> else s1)"

definition update_scores :: "RoundResult \<Rightarrow> GameState \<Rightarrow> GameState" where
  "update_scores result s =
     (if result = USER_WIN then s\<lparr>user_score := user_score s + 1\<rparr>
      else if result = BOT_WIN then s\<lparr>bot_score := bot_score s + 1\<rparr>
      else s)"

definition record_round :: "Move \<Rightarrow> Move \<Rightarrow> RoundResult \<Rightarrow> GameState \<Rightarrow> GameState" where
  "record_round user_move_enum bot_move_enum result s =
     (let s1 = s\<lparr>round_number := round_number s + 1\<rparr>;
          round_record =
            [(''round'', PInt (round_number s1)),
             (''user_move'', PStr (Move_value user_move_enum)),
             (''bot_move'', PStr (Move_value bot_move_enum)),
             (''result'', PStr (RoundResult_value result))];
          s2 = s1\<lparr>rounds_history := rounds_history s1 @ [round_record]\<rparr>
      in if round_number s2 \<ge> 3 then s2\<lparr>game_over := True\<rparr> else s2)"

definition play_round_tool ::
  "draws \<Rightarrow> string \<Rightarrow> GameState \<Rightarrow> (py_error + pydict) \<times> GameState" where
  "play_round_tool rnd user_move s =
     (case validate_move user_move (user_bomb_used s) of
        (is_valid, user_move_enum, error_msg) \<Rightarrow>
          if \<not> is_valid then
            (let s' = wasted_round s
             in (Inr [(''round_number'', PInt (round_number s')),
                      (''result'', PStr ''invalid''),
                      (''error_message'', PStr error_msg),
                      (''user_move'', PStr user_move),
                      (''bot_move'', PNone),
                      (''user_score'', PInt (user_score s')),
                      (''bot_score'', PInt (bot_score s')),
                      (''game_over'', PBool (game_over s'))], s'))
          else
            (case choice (pick rnd) (available_moves s rnd) of
               Inl e \<Rightarrow> (Inl e, s)
             | Inr bot_move_enum \<Rightarrow>
                 (case user_move_enum of
                    None \<Rightarrow> (Inl AttributeError, s)
                  | Some um \<Rightarrow>
                      (let s1 = update_bombs um bot_move_enum s
                       in case resolve_round um bot_move_enum of
                            Inl e \<Rightarrow> (Inl e, s1)
                          | Inr result \<Rightarrow>
                              (let s' = record_round um bot_move_enum result
                                          (update_scores result s1)
                               in (Inr [(''round_number'', PInt (round_number s')),
                                        (''result'', PStr (RoundResult_value result)),
                                        (''user_move'', PStr (Move_value um)),
                                        (''bot_move'', PStr (Move_value bot_move_enum)),
                                        (''user_score'', PInt (user_score s')),
                                        (''bot_score'', PInt (bot_score s')),
                                        (''game_over'', PBool (game_over s')),
                                        (''user_bomb_used'', PBool (user_bomb_used s')),
                                        (''bot_bomb_used'', PBool (bot_bomb_used s'))],
                                   s'))))))"

definition get_game_state_tool :: "GameState \<Rightarrow> pydict \<times> GameState" where
  "get_game_state_tool s = (to_dict s, s)"

definition reset_game_tool :: "GameState \<Rightarrow> pydict \<times> GameState" where
  "reset_game_tool s =
     (let s' = GameState_init
      in ([(''message'', PStr ''Game has been reset''), (''state'', PDict (to_dict s'))], s'))"

subsection \<open>Sequences of calls\<close>

text \<open>
  A sequence of \<open>play_round\<close> calls on the global state is the list of the inputs of
  each call: its random draws and the user's string. \<open>play_rounds\<close> returns what each
  call returned and the state after the last one; \<open>trace\<close> lists the state before the
  first call and the state after each call.
\<close>

type_synonym call = "draws \<times> string"

fun play_rounds :: "call list \<Rightarrow> GameState \<Rightarrow> (py_error + pydict) list \<times> GameState" where
  "play_rounds [] s = ([], s)"
| "play_rounds ((rnd, user_move) # calls) s =
     (case play_round_tool rnd user_move s of
        (out, s1) \<Rightarrow>
          (case play_rounds calls s1 of (outs, s2) \<Rightarrow> (out # outs, s2)))"

fun trace :: "call list \<Rightarrow> GameState \<Rightarrow> GameState list" where
  "trace [] s = [s]"
| "trace ((rnd, user_move) # calls) s =
     s # trace calls (snd (play_round_tool rnd user_move s))"

text \<open>
  The number of calls that returned a dictionary whose \<open>result\<close> is the given string:
  \<open>result_count ''draw''\<close> is the spec's drawCount and \<open>result_count ''invalid''\<close>
  its invalidCount.
\<close>

definition has_result :: "string \<Rightarrow> py_error + pydict \<Rightarrow> bool" where
  "has_result r out =
     (case out of Inl e \<Rightarrow> False | Inr d \<Rightarrow> dict_get d ''result'' = Some (PStr r))"

definition result_count :: "string \<Rightarrow> (py_error + pydict) list \<Rightarrow> nat" where
  "result_count r outs = length (filter (has_result r) outs)"

text \<open>
  The steps of a list of states at which a flag goes from false to true (\<open>rises\<close>) and
  from true to false (\<open>falls\<close>).
\<close>

fun rises :: "('a \<Rightarrow> bool) \<Rightarrow> 'a list \<Rightarrow> nat" where
  "rises f (a # b # ss) = (if \<not> f a \<and> f b then 1 else 0) + rises f (b # ss)"
| "rises f ss = 0"

fun falls :: "('a \<Rightarrow> bool) \<Rightarrow> 'a list \<Rightarrow> nat" where
  "falls f (a # b # ss) = (if f a \<and> \<not> f b then 1 else 0) + falls f (b # ss)"
| "falls f ss = 0"

subsection \<open>The specification's words\<close>

text \<open>
  The cycle of the specification: ROCK beats SCISSORS, SCISSORS beats PAPER, PAPER beats
  ROCK.
\<close>

fun spec_beats :: "Move \<Rightarrow> Move \<Rightarrow> bool" where
  "spec_beats ROCK SCISSORS = True"
| "spec_beats SCISSORS PAPER = True"
| "spec_beats PAPER ROCK = True"
| "spec_beats a b = False"





text \<open>One string occurs inside another.\<close>

fun occurs_in :: "string \<Rightarrow> string \<Rightarrow> bool" where
  "occurs_in w [] = (w = [])"
| "occurs_in w (c # s) = (take (length w) (c # s) = w \<or> occurs_in w s)"

section \<open>Properties\<close>

subsection \<open>Normalising and parsing\<close>






















lemma occurs_in_iff: "occurs_in w s \<longleftrightarrow> (\<exists>p q. s = p @ w @ q)"
proof (induction s)
  case Nil
  then show ?case by auto
next
  case (Cons c s)
  show ?case
  proof
    assume "occurs_in w (c # s)"
    then consider "take (length w) (c # s) = w" | "occurs_in w s" by auto
    then show "\<exists>p q. c # s = p @ w @ q"
    proof cases
      case 1
      then have "c # s = [] @ w @ drop (length w) (c # s)"
        by (metis append_Nil append_take_drop_id)
      then show ?thesis by blast
    next
      case 2
      with Cons obtain p q where "s = p @ w @ q" by blast
      then have "c # s = (c # p) @ w @ q" by simp
      then show ?thesis by blast
    qed
  next
    assume "\<exists>p q. c # s = p @ w @ q"
    then obtain p q where pq: "c # s = p @ w @ q" by blast
    show "occurs_in w (c # s)"
    proof (cases p)
      case Nil
      with pq have "take (length w) (c # s) = w" by simp
      then show ?thesis by (simp del: take_Suc_Cons)
    next
      case (Cons a p')
      with pq have "s = p' @ w @ q" by simp
      with Cons.IH show ?thesis by auto
    qed
  qed
qed


lemma validate_move_invalid_iff:
  "\<not> fst (validate_move move b) \<longleftrightarrow>
     parse_move move = None \<or> (parse_move move = Some BOMB \<and> b)"
  by (auto simp: validate_move_def split: option.splits)

lemma validate_move_invalid_eq:
  "\<not> fst (validate_move move b) \<Longrightarrow>
     validate_move move b =
       (False, None,
        if parse_move move = None then unknown_move_message move else bomb_used_message)"
  by (auto simp: validate_move_def split: option.splits)

lemma validate_move_valid_eq:
  "fst (validate_move move b) \<Longrightarrow>
     \<exists>m. parse_move move = Some m \<and> validate_move move b = (True, Some m, '''')"
  by (auto simp: validate_move_def split: option.splits if_splits)

lemma winning_moves_item_cases:
  "winning_moves_item ROCK = Inr SCISSORS"
  "winning_moves_item SCISSORS = Inr PAPER"
  "winning_moves_item PAPER = Inr ROCK"
  "winning_moves_item BOMB = Inl KeyError"
  by (simp_all add: winning_moves_item_def winning_moves_def)

lemma resolve_round_table:
  "resolve_round u b =
     Inr (if u = b then DRAW
          else if u = BOMB then USER_WIN
          else if b = BOMB then BOT_WIN
          else if spec_beats u b then USER_WIN else BOT_WIN)"
  by (cases u; cases b) (simp_all add: resolve_round_def winning_moves_item_cases)

lemma resolve_round_returns:
  "\<exists>r. resolve_round u b = Inr r \<and> r \<noteq> INVALID"
  by (simp add: resolve_round_table)

lemma choice_available:
  "\<exists>bm. choice k (available_moves s rnd) = Inr bm \<and> (bm = BOMB \<longrightarrow> \<not> bot_bomb_used s)"
proof -
  let ?xs = "available_moves s rnd"
  have ne: "?xs \<noteq> []" by (simp add: available_moves_def)
  have "k mod length ?xs < length ?xs" using ne by simp
  then have mem: "?xs ! (k mod length ?xs) \<in> set ?xs" by (rule nth_mem)
  have bomb: "BOMB \<in> set ?xs \<Longrightarrow> \<not> bot_bomb_used s"
    by (auto simp: available_moves_def split: if_splits)
  have "?xs ! (k mod length ?xs) = BOMB \<longrightarrow> \<not> bot_bomb_used s"
    using mem bomb by metis
  with ne show ?thesis by (simp add: choice_def)
qed

lemma play_round_tool_invalid_eq:
  assumes "\<not> fst (validate_move user_move (user_bomb_used s))"
  shows "play_round_tool rnd user_move s =
     (Inr [(''round_number'', PInt (round_number (wasted_round s))),
           (''result'', PStr ''invalid''),
           (''error_message'',
              PStr (if parse_move user_move = None then unknown_move_message user_move
                    else bomb_used_message)),
           (''user_move'', PStr user_move),
           (''bot_move'', PNone),
           (''user_score'', PInt (user_score (wasted_round s))),
           (''bot_score'', PInt (bot_score (wasted_round s))),
           (''game_over'', PBool (game_over (wasted_round s)))], wasted_round s)"
  using validate_move_invalid_eq [OF assms]
  by (simp add: play_round_tool_def Let_def)

lemma play_round_tool_valid_eq:
  assumes "fst (validate_move user_move (user_bomb_used s))"
  shows "\<exists>um bm r s'.
     parse_move user_move = Some um \<and>
     choice (pick rnd) (available_moves s rnd) = Inr bm \<and>
     (bm = BOMB \<longrightarrow> \<not> bot_bomb_used s) \<and>
     resolve_round um bm = Inr r \<and> r \<noteq> INVALID \<and>
     s' = record_round um bm r (update_scores r (update_bombs um bm s)) \<and>
     play_round_tool rnd user_move s =
       (Inr [(''round_number'', PInt (round_number s')),
             (''result'', PStr (RoundResult_value r)),
             (''user_move'', PStr (Move_value um)),
             (''bot_move'', PStr (Move_value bm)),
             (''user_score'', PInt (user_score s')),
             (''bot_score'', PInt (bot_score s')),
             (''game_over'', PBool (game_over s')),
             (''user_bomb_used'', PBool (user_bomb_used s')),
             (''bot_bomb_used'', PBool (bot_bomb_used s'))], s')"
proof -
  from validate_move_valid_eq [OF assms] obtain um where
    um: "parse_move user_move = Some um"
       "validate_move user_move (user_bomb_used s) = (True, Some um, '''')" by blast
  from choice_available obtain bm where
    bm: "choice (pick rnd) (available_moves s rnd) = Inr bm" "bm = BOMB \<longrightarrow> \<not> bot_bomb_used s"
    by blast
  from resolve_round_returns obtain r where
    r: "resolve_round um bm = Inr r" "r \<noteq> INVALID" by blast
  show ?thesis
    using um bm r by (simp add: play_round_tool_def Let_def)
qed


subsection \<open>One call\<close>

lemma wasted_round_fields:
  "round_number (wasted_round s) = round_number s + 1"
  "game_over (wasted_round s) = (game_over s \<or> 3 \<le> round_number s + 1)"
  "user_score (wasted_round s) = user_score s"
  "bot_score (wasted_round s) = bot_score s"
  "user_bomb_used (wasted_round s) = user_bomb_used s"
  "bot_bomb_used (wasted_round s) = bot_bomb_used s"
  "rounds_history (wasted_round s) = rounds_history s"
  by (simp_all add: wasted_round_def Let_def)

lemma played_round_fields:
  fixes um bm r s
  defines "s' \<equiv> record_round um bm r (update_scores r (update_bombs um bm s))"
  shows "round_number s' = round_number s + 1"
    and "game_over s' = (game_over s \<or> 3 \<le> round_number s + 1)"
    and "user_score s' = user_score s + (if r = USER_WIN then 1 else 0)"
    and "bot_score s' = bot_score s + (if r = BOT_WIN then 1 else 0)"
    and "user_bomb_used s' = (user_bomb_used s \<or> um = BOMB)"
    and "bot_bomb_used s' = (bot_bomb_used s \<or> bm = BOMB)"
    and "length (rounds_history s') = length (rounds_history s) + 1"
  unfolding s'_def
  by (simp_all add: record_round_def update_scores_def update_bombs_def Let_def)

lemma RoundResult_value_eq:
  "RoundResult_value r = ''draw'' \<longleftrightarrow> r = DRAW"
  "RoundResult_value r = ''invalid'' \<longleftrightarrow> r = INVALID"
  by (cases r; simp)+

text \<open>What one call does to the state, whichever branch it takes.\<close>

lemma play_round_tool_step:
  fixes rnd user_move s
  defines "out \<equiv> fst (play_round_tool rnd user_move s)"
      and "s' \<equiv> snd (play_round_tool rnd user_move s)"
  shows "round_number s' = round_number s + 1 \<and>
     game_over s' = (game_over s \<or> 3 \<le> round_number s + 1) \<and>
     (user_bomb_used s \<longrightarrow> user_bomb_used s') \<and>
     (bot_bomb_used s \<longrightarrow> bot_bomb_used s') \<and>
     (\<exists>d. out = Inr d) \<and>
     user_score s' + bot_score s' + (if has_result ''draw'' out then 1 else 0)
           + (if has_result ''invalid'' out then 1 else 0)
         = user_score s + bot_score s + 1"
proof (cases "fst (validate_move user_move (user_bomb_used s))")
  case False
  show ?thesis
    unfolding out_def s'_def play_round_tool_invalid_eq [OF False, of rnd]
    by (simp add: wasted_round_fields has_result_def dict_get_def)
next
  case True
  from play_round_tool_valid_eq [OF True, of rnd] obtain um bm r t where
    r: "r \<noteq> INVALID"
    and t: "t = record_round um bm r (update_scores r (update_bombs um bm s))"
    and eq: "play_round_tool rnd user_move s =
       (Inr [(''round_number'', PInt (round_number t)),
             (''result'', PStr (RoundResult_value r)),
             (''user_move'', PStr (Move_value um)),
             (''bot_move'', PStr (Move_value bm)),
             (''user_score'', PInt (user_score t)),
             (''bot_score'', PInt (bot_score t)),
             (''game_over'', PBool (game_over t)),
             (''user_bomb_used'', PBool (user_bomb_used t)),
             (''bot_bomb_used'', PBool (bot_bomb_used t))], t)"
    by blast
  show ?thesis
    unfolding out_def s'_def eq using r
    by (cases r) (simp_all add: t played_round_fields has_result_def dict_get_def)
qed

subsection \<open>Sequences of calls: what every call keeps\<close>

lemma trace_Cons: "\<exists>ss. trace calls s = s # ss"
  by (cases calls) auto

lemma play_rounds_Cons:
  "play_rounds ((rnd, um) # calls) s =
     (fst (play_round_tool rnd um s) # fst (play_rounds calls (snd (play_round_tool rnd um s))),
      snd (play_rounds calls (snd (play_round_tool rnd um s))))"
  by (simp split: prod.splits)

lemma play_rounds_round_number:
  "round_number (snd (play_rounds calls s)) = round_number s + int (length calls)"
proof (induction calls arbitrary: s)
  case Nil
  show ?case by simp
next
  case (Cons c calls)
  obtain rnd um where c: "c = (rnd, um)" by (cases c)
  show ?case
    using Cons.IH [of "snd (play_round_tool rnd um s)"] play_round_tool_step [of rnd um s]
    by (simp add: c play_rounds_Cons del: play_rounds.simps)
qed

lemma play_rounds_game_over:
  "game_over (snd (play_rounds calls s)) =
     (game_over s \<or> (calls \<noteq> [] \<and> 3 \<le> round_number s + int (length calls)))"
proof (induction calls arbitrary: s)
  case Nil
  show ?case by simp
next
  case (Cons c calls)
  obtain rnd um where c: "c = (rnd, um)" by (cases c)
  show ?case
    using Cons.IH [of "snd (play_round_tool rnd um s)"] play_round_tool_step [of rnd um s]
    by (cases calls) (auto simp: c play_rounds_Cons simp del: play_rounds.simps)
qed

lemma play_rounds_scores:
  "user_score (snd (play_rounds calls s)) + bot_score (snd (play_rounds calls s))
     + int (result_count ''draw'' (fst (play_rounds calls s)))
     + int (result_count ''invalid'' (fst (play_rounds calls s)))
   = user_score s + bot_score s + int (length calls)"
proof (induction calls arbitrary: s)
  case Nil
  show ?case by (simp add: result_count_def)
next
  case (Cons c calls)
  obtain rnd um where c: "c = (rnd, um)" by (cases c)
  show ?case
    using Cons.IH [of "snd (play_round_tool rnd um s)"] play_round_tool_step [of rnd um s]
    by (simp add: c result_count_def play_rounds_Cons del: play_rounds.simps split: if_splits)
qed

lemma play_rounds_returns:
  "out \<in> set (fst (play_rounds calls s)) \<Longrightarrow> \<exists>d. out = Inr d"
proof (induction calls arbitrary: s)
  case Nil
  then show ?case by simp
next
  case (Cons c calls)
  obtain rnd um where c: "c = (rnd, um)" by (cases c)
  show ?case
    using Cons.prems Cons.IH [of "snd (play_round_tool rnd um s)"]
      play_round_tool_step [of rnd um s]
    by (auto simp: c play_rounds_Cons simp del: play_rounds.simps)
qed

text \<open>A flag that no call clears rises at most once along a trace and never falls.\<close>

lemma trace_flag_kept:
  assumes mono: "\<And>rnd um t. f t \<Longrightarrow> f (snd (play_round_tool rnd um t))"
  shows "f s \<Longrightarrow> t \<in> set (trace calls s) \<Longrightarrow> f t"
proof (induction calls arbitrary: s)
  case Nil
  then show ?case by simp
next
  case (Cons c calls)
  obtain rnd um where c: "c = (rnd, um)" by (cases c)
  from Cons.prems c consider "t = s" | "t \<in> set (trace calls (snd (play_round_tool rnd um s)))"
    by auto
  then show ?case
  proof cases
    case 1
    with Cons.prems show ?thesis by simp
  next
    case 2
    from mono [OF Cons.prems(1)] have "f (snd (play_round_tool rnd um s))" .
    from Cons.IH [OF this 2] show ?thesis .
  qed
qed

lemma trace_flag_later:
  assumes mono: "\<And>rnd um t. f t \<Longrightarrow> f (snd (play_round_tool rnd um t))"
  shows "i \<le> j \<Longrightarrow> j < length (trace calls s) \<Longrightarrow> f (trace calls s ! i)
    \<Longrightarrow> f (trace calls s ! j)"
proof (induction calls arbitrary: s i j)
  case Nil
  then show ?case by simp
next
  case (Cons c calls)
  obtain rnd um where c: "c = (rnd, um)" by (cases c)
  let ?s1 = "snd (play_round_tool rnd um s)"
  have tr: "trace (c # calls) s = s # trace calls ?s1" by (simp add: c)
  show ?case
  proof (cases i)
    case 0
    with Cons.prems tr have "f s" by simp
    moreover have "trace (c # calls) s ! j \<in> set (trace (c # calls) s)"
      using Cons.prems(2) by (rule nth_mem)
    ultimately show ?thesis using trace_flag_kept [where f = f, OF mono] by blast
  next
    case (Suc i')
    with Cons.prems obtain j' where j: "j = Suc j'" "i' \<le> j'" by (cases j) auto
    from Cons.prems Suc j tr have "j' < length (trace calls ?s1)" "f (trace calls ?s1 ! i')"
      by simp_all
    from Cons.IH [OF j(2) this] show ?thesis by (simp add: tr Suc j)
  qed
qed

lemma trace_flag_set:
  assumes mono: "\<And>rnd um t. f t \<Longrightarrow> f (snd (play_round_tool rnd um t))"
  shows "f s \<Longrightarrow> rises f (trace calls s) = 0 \<and> falls f (trace calls s) = 0"
proof (induction calls arbitrary: s)
  case Nil
  show ?case by simp
next
  case (Cons c calls)
  obtain rnd um where c: "c = (rnd, um)" by (cases c)
  let ?s1 = "snd (play_round_tool rnd um s)"
  from mono [OF Cons.prems] have f1: "f ?s1" .
  obtain ss where ss: "trace calls ?s1 = ?s1 # ss" using trace_Cons by blast
  from Cons.IH [OF f1] show ?case
    using Cons.prems f1 by (simp add: c ss)
qed

lemma trace_flag_monotone:
  assumes mono: "\<And>rnd um t. f t \<Longrightarrow> f (snd (play_round_tool rnd um t))"
  shows "rises f (trace calls s) \<le> 1 \<and> falls f (trace calls s) = 0"
proof (induction calls arbitrary: s)
  case Nil
  show ?case by simp
next
  case (Cons c calls)
  obtain rnd um where c: "c = (rnd, um)" by (cases c)
  let ?s1 = "snd (play_round_tool rnd um s)"
  obtain ss where ss: "trace calls ?s1 = ?s1 # ss" using trace_Cons by blast
  show ?case
  proof (cases "f ?s1")
    case True
    from trace_flag_set [where f = f, OF mono True, of calls] show ?thesis
      using True by (simp add: c ss)
  next
    case False
    with mono [of s rnd um] have "\<not> f s" by blast
    with False Cons.IH [of ?s1] show ?thesis by (simp add: c ss)
  qed
qed

lemma user_bomb_kept: "user_bomb_used t \<Longrightarrow> user_bomb_used (snd (play_round_tool rnd um t))"
  using play_round_tool_step [of rnd um t] by blast

lemma bot_bomb_kept: "bot_bomb_used t \<Longrightarrow> bot_bomb_used (snd (play_round_tool rnd um t))"
  using play_round_tool_step [of rnd um t] by blast

lemma game_over_kept: "game_over t \<Longrightarrow> game_over (snd (play_round_tool rnd um t))"
  using play_round_tool_step [of rnd um t] by blast

subsection \<open>The claims\<close>

text \<open>
  Claim C1. For every pair of moves \<open>resolve_round\<close> returns DRAW when the moves are
  equal (BOMB against BOMB included), USER_WIN when the user plays BOMB and the bot does
  not, BOT_WIN when the bot plays BOMB and the user does not, and otherwise follows the
  cycle ROCK beats SCISSORS, SCISSORS beats PAPER, PAPER beats ROCK: the side that neither
  wins nor equals the other loses.
\<close>

theorem resolve_round_rules:
  "(user_move = bot_move \<longrightarrow> resolve_round user_move bot_move = Inr DRAW) \<and>
   (user_move = BOMB \<and> bot_move \<noteq> BOMB \<longrightarrow>
      resolve_round user_move bot_move = Inr USER_WIN) \<and>
   (bot_move = BOMB \<and> user_move \<noteq> BOMB \<longrightarrow>
      resolve_round user_move bot_move = Inr BOT_WIN) \<and>
   (user_move \<noteq> BOMB \<and> bot_move \<noteq> BOMB \<and> spec_beats user_move bot_move \<longrightarrow>
      resolve_round user_move bot_move = Inr USER_WIN) \<and>
   (user_move \<noteq> BOMB \<and> bot_move \<noteq> BOMB \<and> user_move \<noteq> bot_move
      \<and> \<not> spec_beats user_move bot_move \<longrightarrow>
      resolve_round user_move bot_move = Inr BOT_WIN \<and> spec_beats bot_move user_move)"
  by (cases user_move; cases bot_move) (simp_all add: resolve_round_table)

theorem resolve_round_rules_witness:
  "resolve_round BOMB BOMB = Inr DRAW \<and> resolve_round PAPER PAPER = Inr DRAW \<and>
   resolve_round BOMB ROCK = Inr USER_WIN \<and> resolve_round SCISSORS BOMB = Inr BOT_WIN \<and>
   resolve_round ROCK SCISSORS = Inr USER_WIN \<and> resolve_round ROCK PAPER = Inr BOT_WIN"
  using resolve_round_rules [of BOMB BOMB] resolve_round_rules [of PAPER PAPER]
    resolve_round_rules [of BOMB ROCK] resolve_round_rules [of SCISSORS BOMB]
    resolve_round_rules [of ROCK SCISSORS] resolve_round_rules [of ROCK PAPER]
  by simp

text \<open>
  Claim C10. \<open>resolve_round\<close> never raises: on each of the 16 pairs it returns one of
  USER_WIN, BOT_WIN, DRAW. The table has no entry for BOMB, so a lookup with BOMB would be
  the \<open>KeyError\<close>; every other move has an entry, and the BOMB cases return before the
  lookup.
\<close>

theorem resolve_round_total:
  "(resolve_round user_move bot_move = Inr USER_WIN
      \<or> resolve_round user_move bot_move = Inr BOT_WIN
      \<or> resolve_round user_move bot_move = Inr DRAW) \<and>
   winning_moves_item BOMB = Inl KeyError \<and>
   (user_move \<noteq> BOMB \<longrightarrow> (\<exists>w. winning_moves_item user_move = Inr w))"
  by (cases user_move) (simp_all add: resolve_round_table winning_moves_item_cases)

theorem resolve_round_total_witness:
  "resolve_round SCISSORS ROCK = Inr BOT_WIN \<and> SCISSORS \<noteq> BOMB \<and>
   (\<exists>w. winning_moves_item SCISSORS = Inr w)"
  using resolve_round_total [of SCISSORS ROCK] by (simp add: resolve_round_table)

text \<open>
  Claim C7. \<open>determine_game_winner\<close> is a function of the two scores only: "user" when
  the user's score is higher, "bot" when the bot's is, "draw" when they are equal,
  whatever \<open>game_over\<close> is.
\<close>

theorem determine_game_winner_scores:
  "(user_score s > bot_score s \<longrightarrow> determine_game_winner s = ''user'') \<and>
   (bot_score s > user_score s \<longrightarrow> determine_game_winner s = ''bot'') \<and>
   (user_score s = bot_score s \<longrightarrow> determine_game_winner s = ''draw'') \<and>
   (user_score s = user_score t \<and> bot_score s = bot_score t \<longrightarrow>
      determine_game_winner s = determine_game_winner t) \<and>
   determine_game_winner (s\<lparr>game_over := g\<rparr>) = determine_game_winner s"
  by (simp add: determine_game_winner_def)

theorem determine_game_winner_scores_witness:
  "determine_game_winner (GameState_init\<lparr>user_score := 2, bot_score := 1\<rparr>) = ''user'' \<and>
   determine_game_winner (GameState_init\<lparr>bot_score := 3\<rparr>) = ''bot'' \<and>
   determine_game_winner GameState_init = ''draw'' \<and>
   determine_game_winner (GameState_init\<lparr>round_number := 3, game_over := True\<rparr>)
     = determine_game_winner GameState_init"
  using determine_game_winner_scores [of "GameState_init\<lparr>user_score := 2, bot_score := 1\<rparr>"
      "GameState_init\<lparr>user_score := 2, bot_score := 1\<rparr>" True]
    determine_game_winner_scores [of "GameState_init\<lparr>bot_score := 3\<rparr>"
      "GameState_init\<lparr>bot_score := 3\<rparr>" True]
    determine_game_winner_scores [of GameState_init
      "GameState_init\<lparr>round_number := 3, game_over := True\<rparr>" True]
  by (simp add: GameState_init_def determine_game_winner_def)

lemma parse_move_name: "parse_move (Move_value m) = Some m"
  by (cases m; hypsubst_thin; code_simp)

lemma parse_move_upper_name: "parse_move (upper (Move_value m)) = Some m"
  by (cases m; hypsubst_thin; code_simp)

lemma parse_move_padded_name: "parse_move ('' '' @ Move_value m @ '' '') = Some m"
  by (cases m; hypsubst_thin; code_simp)

text \<open>
  Claim C6. Parsing does not depend on case or on surrounding whitespace: for every legal
  move name \<open>s\<close>, parsing \<open>s\<close>, \<open>s.upper()\<close> and \<open>" " + s + " "\<close> gives the same
  move, the one named \<open>s\<close>; \<open>validate_move\<close> returns the same triple on the three.
\<close>

theorem parse_move_case_whitespace:
  "parse_move (Move_value m) = Some m \<and>
   parse_move (upper (Move_value m)) = parse_move (Move_value m) \<and>
   parse_move ('' '' @ Move_value m @ '' '') = parse_move (Move_value m) \<and>
   validate_move (upper (Move_value m)) b = validate_move (Move_value m) b \<and>
   validate_move ('' '' @ Move_value m @ '' '') b = validate_move (Move_value m) b"
  unfolding validate_move_def parse_move_name parse_move_upper_name parse_move_padded_name
  by simp



text \<open>
  Claim C8. After any sequence of rounds, \<open>reset_game_tool\<close> leaves a state whose
  round number and scores are 0, whose two bomb flags and \<open>game_over\<close> are false and
  whose history is empty, and returns the snapshot of that state.
\<close>

theorem reset_game_tool_fresh:
  "round_number (snd (reset_game_tool (snd (play_rounds calls s)))) = 0 \<and>
   user_score (snd (reset_game_tool (snd (play_rounds calls s)))) = 0 \<and>
   bot_score (snd (reset_game_tool (snd (play_rounds calls s)))) = 0 \<and>
   user_bomb_used (snd (reset_game_tool (snd (play_rounds calls s)))) = False \<and>
   bot_bomb_used (snd (reset_game_tool (snd (play_rounds calls s)))) = False \<and>
   game_over (snd (reset_game_tool (snd (play_rounds calls s)))) = False \<and>
   rounds_history (snd (reset_game_tool (snd (play_rounds calls s)))) = [] \<and>
   dict_get (fst (reset_game_tool (snd (play_rounds calls s)))) ''state''
     = Some (PDict (to_dict GameState_init))"
  by (simp add: reset_game_tool_def GameState_init_def dict_get_def Let_def)

text \<open>
  Claim C2. For every state and every invalid input (a string that parses to no move, or
  one that parses to BOMB when the user's bomb flag is set), \<open>play_round_tool\<close> adds 1
  to the round number, sets \<open>game_over\<close> when the round number reaches 3, and returns
  a dictionary whose result is "invalid" and which carries the error message and the
  snapshot of round number, scores and \<open>game_over\<close>; the scores, both bomb flags and the
  history stay as they were, and no bot move is chosen: the \<open>bot_move\<close> entry is
  \<open>None\<close> and the outcome is the same for every random draw.
\<close>

theorem play_round_tool_invalid:
  assumes "parse_move user_move = None
             \<or> (parse_move user_move = Some BOMB \<and> user_bomb_used s)"
  shows "\<exists>d s'. play_round_tool rnd user_move s = (Inr d, s') \<and>
           round_number s' = round_number s + 1 \<and>
           game_over s' = (game_over s \<or> 3 \<le> round_number s') \<and>
           dict_get d ''result'' = Some (PStr ''invalid'') \<and>
           dict_get d ''error_message'' =
             Some (PStr (if parse_move user_move = None
                         then unknown_move_message user_move else bomb_used_message)) \<and>
           dict_get d ''bot_move'' = Some PNone \<and>
           dict_get d ''round_number'' = Some (PInt (round_number s')) \<and>
           dict_get d ''user_score'' = Some (PInt (user_score s')) \<and>
           dict_get d ''bot_score'' = Some (PInt (bot_score s')) \<and>
           dict_get d ''game_over'' = Some (PBool (game_over s')) \<and>
           user_score s' = user_score s \<and> bot_score s' = bot_score s \<and>
           user_bomb_used s' = user_bomb_used s \<and> bot_bomb_used s' = bot_bomb_used s \<and>
           rounds_history s' = rounds_history s \<and>
           play_round_tool rnd' user_move s = (Inr d, s')"
proof -
  from assms have inv: "\<not> fst (validate_move user_move (user_bomb_used s))"
    by (simp add: validate_move_invalid_iff)
  show ?thesis
    unfolding play_round_tool_invalid_eq [OF inv]
    by (simp add: wasted_round_fields dict_get_def)
qed

theorem play_round_tool_invalid_witness:
  "\<exists>d s'. play_round_tool \<lparr>bomb_roll = True, pick = 3\<rparr> ''banana'' GameState_init = (Inr d, s')
      \<and> round_number s' = 1 \<and> \<not> game_over s'
      \<and> dict_get d ''result'' = Some (PStr ''invalid'')
      \<and> user_score s' = 0 \<and> bot_score s' = 0 \<and> rounds_history s' = []"
proof -
  have h: "parse_move ''banana'' = None" by code_simp
  have "parse_move ''banana'' = None
          \<or> (parse_move ''banana'' = Some BOMB \<and> user_bomb_used GameState_init)"
    using h by simp
  from play_round_tool_invalid [OF this, of "\<lparr>bomb_roll = True, pick = 3\<rparr>"
      "\<lparr>bomb_roll = True, pick = 3\<rparr>"]
  show ?thesis by (auto simp: GameState_init_def)
qed

lemma play_rounds_totals:
  "user_score (snd (play_rounds calls GameState_init))
     + bot_score (snd (play_rounds calls GameState_init))
     + int (result_count ''draw'' (fst (play_rounds calls GameState_init)))
     + int (result_count ''invalid'' (fst (play_rounds calls GameState_init)))
     = round_number (snd (play_rounds calls GameState_init)) \<and>
   round_number (snd (play_rounds calls GameState_init)) = int (length calls)"
  using play_rounds_scores [of calls GameState_init]
  by (simp add: play_rounds_round_number GameState_init_def)

text \<open>
  Claim C3. The claim: after any sequence of \<open>play_round\<close> calls on a fresh state the
  scores, draws and invalid rounds add up to the round number, the round number is at most
  3, and no round is accepted once \<open>game_over\<close> is true. The sum holds
  (\<open>play_rounds_totals\<close>), but \<open>play_round_tool\<close> never reads \<open>game_over\<close>. On
  the input below, three rounds are drawn and the game is over with the winner "draw"; the
  fourth call is carried out all the same: it returns the result "user_win" for round 4,
  leaves the round number at 4 with a fourth history record, and turns the winner into
  "user".
\<close>

theorem play_rounds_past_limit:
  "game_over (snd (play_rounds
      [(\<lparr>bomb_roll = False, pick = 0\<rparr>, ''rock''), (\<lparr>bomb_roll = False, pick = 0\<rparr>, ''rock''),
       (\<lparr>bomb_roll = False, pick = 0\<rparr>, ''rock'')] GameState_init)) \<and>
   determine_game_winner (snd (play_rounds
      [(\<lparr>bomb_roll = False, pick = 0\<rparr>, ''rock''), (\<lparr>bomb_roll = False, pick = 0\<rparr>, ''rock''),
       (\<lparr>bomb_roll = False, pick = 0\<rparr>, ''rock'')] GameState_init)) = ''draw'' \<and>
   fst (play_round_tool \<lparr>bomb_roll = False, pick = 0\<rparr> ''paper'' (snd (play_rounds
      [(\<lparr>bomb_roll = False, pick = 0\<rparr>, ''rock''), (\<lparr>bomb_roll = False, pick = 0\<rparr>, ''rock''),
       (\<lparr>bomb_roll = False, pick = 0\<rparr>, ''rock'')] GameState_init)))
     = Inr [(''round_number'', PInt 4), (''result'', PStr ''user_win''),
            (''user_move'', PStr ''paper''), (''bot_move'', PStr ''rock''),
            (''user_score'', PInt 1), (''bot_score'', PInt 0),
            (''game_over'', PBool True), (''user_bomb_used'', PBool False),
            (''bot_bomb_used'', PBool False)] \<and>
   round_number (snd (play_rounds
      [(\<lparr>bomb_roll = False, pick = 0\<rparr>, ''rock''), (\<lparr>bomb_roll = False, pick = 0\<rparr>, ''rock''),
       (\<lparr>bomb_roll = False, pick = 0\<rparr>, ''rock''), (\<lparr>bomb_roll = False, pick = 0\<rparr>, ''paper'')]
      GameState_init)) = 4 \<and>
   length (rounds_history (snd (play_rounds
      [(\<lparr>bomb_roll = False, pick = 0\<rparr>, ''rock''), (\<lparr>bomb_roll = False, pick = 0\<rparr>, ''rock''),
       (\<lparr>bomb_roll = False, pick = 0\<rparr>, ''rock''), (\<lparr>bomb_roll = False, pick = 0\<rparr>, ''paper'')]
      GameState_init))) = 4 \<and>
   determine_game_winner (snd (play_rounds
      [(\<lparr>bomb_roll = False, pick = 0\<rparr>, ''rock''), (\<lparr>bomb_roll = False, pick = 0\<rparr>, ''rock''),
       (\<lparr>bomb_roll = False, pick = 0\<rparr>, ''rock''), (\<lparr>bomb_roll = False, pick = 0\<rparr>, ''paper'')]
      GameState_init)) = ''user''"
  by code_simp

text \<open>
  Claim C4. Along any sequence of \<open>play_round\<close> calls, from any state, each of the two
  bomb flags goes from false to true at most once and never from true to false; and once
  the user's flag is true, in every later state validating the input "bomb" (or any string
  that parses to BOMB) fails with the message that the bomb has already been used. States
  are counted along the trace: state 0 is the one before the first call and state \<open>k\<close>
  the one after the \<open>k\<close>-th call.
\<close>

theorem bomb_flags_irreversible:
  "rises user_bomb_used (trace calls s) \<le> 1 \<and> falls user_bomb_used (trace calls s) = 0 \<and>
   rises bot_bomb_used (trace calls s) \<le> 1 \<and> falls bot_bomb_used (trace calls s) = 0 \<and>
   (user_bomb_used s \<longrightarrow> user_bomb_used (snd (play_rounds calls s))) \<and>
   (bot_bomb_used s \<longrightarrow> bot_bomb_used (snd (play_rounds calls s))) \<and>
   (user_bomb_used s \<and> t \<in> set (trace calls s) \<longrightarrow>
      validate_move ''bomb'' (user_bomb_used t) = (False, None, bomb_used_message) \<and>
      (parse_move move = Some BOMB \<longrightarrow>
         validate_move move (user_bomb_used t) = (False, None, bomb_used_message)) \<and>
      dict_get (fst (validate_move_tool ''bomb'' t)) ''is_valid'' = Some (PBool False) \<and>
      dict_get (fst (validate_move_tool ''bomb'' t)) ''error_message''
        = Some (PStr bomb_used_message)) \<and>
   (i \<le> j \<and> j < length (trace calls s) \<and> user_bomb_used (trace calls s ! i) \<longrightarrow>
      user_bomb_used (trace calls s ! j) \<and>
      validate_move ''bomb'' (user_bomb_used (trace calls s ! j))
        = (False, None, bomb_used_message) \<and>
      (parse_move move = Some BOMB \<longrightarrow>
         validate_move move (user_bomb_used (trace calls s ! j))
           = (False, None, bomb_used_message)) \<and>
      dict_get (fst (validate_move_tool ''bomb'' (trace calls s ! j))) ''is_valid''
        = Some (PBool False) \<and>
      dict_get (fst (validate_move_tool ''bomb'' (trace calls s ! j))) ''error_message''
        = Some (PStr bomb_used_message)) \<and>
   (i \<le> j \<and> j < length (trace calls s) \<and> bot_bomb_used (trace calls s ! i) \<longrightarrow>
      bot_bomb_used (trace calls s ! j))"
proof -
  have last: "snd (play_rounds calls s) \<in> set (trace calls s)" for s
  proof (induction calls arbitrary: s)
    case Nil
    show ?case by simp
  next
    case (Cons c calls)
    obtain rnd um where c: "c = (rnd, um)" by (cases c)
    show ?case using Cons.IH [of "snd (play_round_tool rnd um s)"]
      by (simp add: c play_rounds_Cons del: play_rounds.simps)
  qed
  have u: "user_bomb_used s \<Longrightarrow> t \<in> set (trace calls s) \<Longrightarrow> user_bomb_used t" for t
    by (rule trace_flag_kept [where f = user_bomb_used]) (rule user_bomb_kept)
  have b: "bot_bomb_used s \<Longrightarrow> t \<in> set (trace calls s) \<Longrightarrow> bot_bomb_used t" for t
    by (rule trace_flag_kept [where f = bot_bomb_used]) (rule bot_bomb_kept)
  have bomb: "parse_move ''bomb'' = Some BOMB"
    using parse_move_name [of BOMB] by simp
  have v: "parse_move m = Some BOMB \<Longrightarrow> validate_move m True = (False, None, bomb_used_message)"
    for m by (simp add: validate_move_def)
  have vt: "user_bomb_used t \<Longrightarrow>
      dict_get (fst (validate_move_tool ''bomb'' t)) ''is_valid'' = Some (PBool False) \<and>
      dict_get (fst (validate_move_tool ''bomb'' t)) ''error_message''
        = Some (PStr bomb_used_message)" for t
    using v [OF bomb] by (simp add: validate_move_tool_def dict_get_def)
  have lu: "i \<le> j \<Longrightarrow> j < length (trace calls s) \<Longrightarrow> user_bomb_used (trace calls s ! i)
      \<Longrightarrow> user_bomb_used (trace calls s ! j)"
    by (rule trace_flag_later [where f = user_bomb_used]) (rule user_bomb_kept)
  have lb: "i \<le> j \<Longrightarrow> j < length (trace calls s) \<Longrightarrow> bot_bomb_used (trace calls s ! i)
      \<Longrightarrow> bot_bomb_used (trace calls s ! j)"
    by (rule trace_flag_later [where f = bot_bomb_used]) (rule bot_bomb_kept)
  show ?thesis
    using trace_flag_monotone [where f = user_bomb_used, OF user_bomb_kept, of calls s]
      trace_flag_monotone [where f = bot_bomb_used, OF bot_bomb_kept, of calls s]
      u [OF _ last] b [OF _ last] u [of t] v [OF bomb] v [of move] vt [of t]
      lu lb vt [of "trace calls s ! j"]
    by auto
qed

theorem bomb_flags_irreversible_witness:
  "\<not> user_bomb_used GameState_init \<and>
   2 < length (trace [(\<lparr>bomb_roll = False, pick = 0\<rparr>, ''bomb''),
                      (\<lparr>bomb_roll = False, pick = 0\<rparr>, ''rock'')] GameState_init) \<and>
   user_bomb_used (trace [(\<lparr>bomb_roll = False, pick = 0\<rparr>, ''bomb''),
                          (\<lparr>bomb_roll = False, pick = 0\<rparr>, ''rock'')] GameState_init ! 1) \<and>
   user_bomb_used (trace [(\<lparr>bomb_roll = False, pick = 0\<rparr>, ''bomb''),
                          (\<lparr>bomb_roll = False, pick = 0\<rparr>, ''rock'')] GameState_init ! 2) \<and>
   validate_move ''bomb''
     (user_bomb_used (trace [(\<lparr>bomb_roll = False, pick = 0\<rparr>, ''bomb''),
                             (\<lparr>bomb_roll = False, pick = 0\<rparr>, ''rock'')] GameState_init ! 2))
     = (False, None, bomb_used_message) \<and>
   parse_move '' BOMB'' = Some BOMB \<and>
   validate_move '' BOMB''
     (user_bomb_used (trace [(\<lparr>bomb_roll = False, pick = 0\<rparr>, ''bomb''),
                             (\<lparr>bomb_roll = False, pick = 0\<rparr>, ''rock'')] GameState_init ! 2))
     = (False, None, bomb_used_message) \<and>
   user_bomb_used (snd (play_round_tool \<lparr>bomb_roll = True, pick = 3\<rparr> ''bomb'' GameState_init)) \<and>
   bot_bomb_used (snd (play_round_tool \<lparr>bomb_roll = True, pick = 3\<rparr> ''bomb'' GameState_init)) \<and>
   user_bomb_used (snd (play_rounds [(\<lparr>bomb_roll = True, pick = 3\<rparr>, ''rock'')]
      (snd (play_round_tool \<lparr>bomb_roll = True, pick = 3\<rparr> ''bomb'' GameState_init)))) \<and>
   bot_bomb_used (snd (play_rounds [(\<lparr>bomb_roll = True, pick = 3\<rparr>, ''rock'')]
      (snd (play_round_tool \<lparr>bomb_roll = True, pick = 3\<rparr> ''bomb'' GameState_init)))) \<and>
   dict_get (fst (validate_move_tool ''bomb''
      (snd (play_round_tool \<lparr>bomb_roll = True, pick = 3\<rparr> ''rock''
         (snd (play_round_tool \<lparr>bomb_roll = True, pick = 3\<rparr> ''bomb'' GameState_init))))))
      ''error_message'' = Some (PStr bomb_used_message)"
proof -
  let ?calls = "[(\<lparr>bomb_roll = False, pick = 0\<rparr>, ''bomb''),
                 (\<lparr>bomb_roll = False, pick = 0\<rparr>, ''rock'')]"
  let ?sb = "snd (play_round_tool \<lparr>bomb_roll = True, pick = 3\<rparr> ''bomb'' GameState_init)"
  let ?t = "snd (play_round_tool \<lparr>bomb_roll = True, pick = 3\<rparr> ''rock'' ?sb)"
  have h0: "\<not> user_bomb_used GameState_init" by code_simp
  have h1: "(1::nat) \<le> 2" by simp
  have h2: "2 < length (trace ?calls GameState_init)" by simp
  have h3: "user_bomb_used (trace ?calls GameState_init ! 1)" by code_simp
  have h4: "parse_move '' BOMB'' = Some BOMB" by code_simp
  have h5: "user_bomb_used ?sb" by code_simp
  have h6: "bot_bomb_used ?sb" by code_simp
  have h7: "?t \<in> set (trace [(\<lparr>bomb_roll = True, pick = 3\<rparr>, ''rock'')] ?sb)" by simp
  note a = bomb_flags_irreversible [where calls = ?calls and s = GameState_init
      and t = GameState_init and move = "'' BOMB''" and i = 1 and j = 2]
  note b = bomb_flags_irreversible [where calls = "[(\<lparr>bomb_roll = True, pick = 3\<rparr>, ''rock'')]"
      and s = ?sb and t = ?t and move = "''bomb''" and i = 0 and j = 0]
  from h1 h2 h3 h4 a have c1:
    "user_bomb_used (trace ?calls GameState_init ! 2)"
    "validate_move ''bomb'' (user_bomb_used (trace ?calls GameState_init ! 2))
       = (False, None, bomb_used_message)"
    "validate_move '' BOMB'' (user_bomb_used (trace ?calls GameState_init ! 2))
       = (False, None, bomb_used_message)"
    by blast+
  from h5 h6 h7 b have c2:
    "user_bomb_used (snd (play_rounds [(\<lparr>bomb_roll = True, pick = 3\<rparr>, ''rock'')] ?sb))"
    "bot_bomb_used (snd (play_rounds [(\<lparr>bomb_roll = True, pick = 3\<rparr>, ''rock'')] ?sb))"
    "dict_get (fst (validate_move_tool ''bomb'' ?t)) ''error_message''
       = Some (PStr bomb_used_message)"
    by blast+
  from h0 h2 h3 c1(1) c1(2) h4 c1(3) h5 h6 c2 show ?thesis by (intro conjI)
qed

text \<open>
  Claim C9. In every sequence of \<open>play_round\<close> calls on a fresh state, \<open>game_over\<close>
  is true exactly from the third call on: a call turns it from false to true if and only if
  that call brings the round number to 3. No \<open>play_round\<close> call, from any state, sets
  it back to false, the other tools that keep the state leave it as it is, and
  \<open>reset_game_tool\<close> gives a state where it is false.
\<close>

theorem game_over_at_round_three:
  "(game_over (snd (play_rounds calls GameState_init)) \<longleftrightarrow> 3 \<le> length calls) \<and>
   round_number (snd (play_rounds calls GameState_init)) = int (length calls) \<and>
   ((\<not> game_over (snd (play_rounds calls GameState_init)) \<and>
       game_over (snd (play_round_tool rnd user_move (snd (play_rounds calls GameState_init)))))
      \<longleftrightarrow> round_number
            (snd (play_round_tool rnd user_move (snd (play_rounds calls GameState_init)))) = 3) \<and>
   (game_over s \<longrightarrow> game_over (snd (play_round_tool rnd user_move s))) \<and>
   falls game_over (trace calls s) = 0 \<and> rises game_over (trace calls s) \<le> 1 \<and>
   (game_over s \<longrightarrow> game_over (snd (validate_move_tool user_move s))
      \<and> game_over (snd (get_game_state_tool s))) \<and>
   \<not> game_over (snd (reset_game_tool s))"
proof -
  let ?t = "snd (play_rounds calls GameState_init)"
  have rn: "round_number ?t = int (length calls)"
    by (simp add: play_rounds_round_number GameState_init_def)
  have go: "game_over ?t \<longleftrightarrow> 3 \<le> length calls"
    by (auto simp: play_rounds_game_over GameState_init_def)
  note step = play_round_tool_step [of rnd user_move ?t]
  have flip: "(\<not> game_over ?t \<and> game_over (snd (play_round_tool rnd user_move ?t)))
      \<longleftrightarrow> round_number (snd (play_round_tool rnd user_move ?t)) = 3"
    using step rn go by auto
  have tools: "snd (validate_move_tool user_move s) = s" "snd (get_game_state_tool s) = s"
    by (simp_all add: validate_move_tool_def get_game_state_tool_def split: prod.splits)
  have reset: "\<not> game_over (snd (reset_game_tool s))"
    by (simp add: reset_game_tool_def GameState_init_def Let_def)
  show ?thesis
    using rn go flip tools reset game_over_kept [of s rnd user_move]
      trace_flag_monotone [where f = game_over, OF game_over_kept, of calls s]
    by simp
qed

theorem game_over_at_round_three_witness:
  "round_number (snd (play_round_tool \<lparr>bomb_roll = False, pick = 1\<rparr> ''rock''
      (snd (play_rounds [(\<lparr>bomb_roll = True, pick = 3\<rparr>, ''bomb''),
         (\<lparr>bomb_roll = False, pick = 1\<rparr>, ''banana'')] GameState_init)))) = 3 \<and>
   \<not> game_over (snd (play_rounds [(\<lparr>bomb_roll = True, pick = 3\<rparr>, ''bomb''),
         (\<lparr>bomb_roll = False, pick = 1\<rparr>, ''banana'')] GameState_init)) \<and>
   game_over (snd (play_round_tool \<lparr>bomb_roll = False, pick = 1\<rparr> ''rock''
      (snd (play_rounds [(\<lparr>bomb_roll = True, pick = 3\<rparr>, ''bomb''),
         (\<lparr>bomb_roll = False, pick = 1\<rparr>, ''banana'')] GameState_init)))) \<and>
   game_over (GameState_init\<lparr>round_number := 3, game_over := True\<rparr>) \<and>
   game_over (snd (play_round_tool \<lparr>bomb_roll = False, pick = 1\<rparr> ''rock''
      (GameState_init\<lparr>round_number := 3, game_over := True\<rparr>))) \<and>
   \<not> game_over (snd (reset_game_tool (GameState_init\<lparr>round_number := 3, game_over := True\<rparr>)))"
proof -
  have h1: "round_number (snd (play_round_tool \<lparr>bomb_roll = False, pick = 1\<rparr> ''rock''
      (snd (play_rounds [(\<lparr>bomb_roll = True, pick = 3\<rparr>, ''bomb''),
         (\<lparr>bomb_roll = False, pick = 1\<rparr>, ''banana'')] GameState_init)))) = 3"
    by code_simp
  have h2: "game_over (GameState_init\<lparr>round_number := 3, game_over := True\<rparr>)" by simp
  show ?thesis
    using h1 h2
      game_over_at_round_three [of "[(\<lparr>bomb_roll = True, pick = 3\<rparr>, ''bomb''),
         (\<lparr>bomb_roll = False, pick = 1\<rparr>, ''banana'')]" "\<lparr>bomb_roll = False, pick = 1\<rparr>"
        "''rock''" "GameState_init\<lparr>round_number := 3, game_over := True\<rparr>"]
    by blast
qed

end
